theory Spec2Isabelle
  imports Complex_Main "HOL-Library.Multiset"
begin

section \<open>The weighted statistics of the embedding comparison dashboard\<close>

text \<open>
  The theory embeds the helper analytics of \<^verbatim>\<open>embsuivi/gui/helpers.py\<close>
  (\<^verbatim>\<open>weighted_median\<close>, the two \<^verbatim>\<open>compute_weighted_median_*\<close> functions and the
  \<^verbatim>\<open>AdvancedParameters\<close> class) and the parameter selection of \<^verbatim>\<open>embsuivi/gui/app.py\<close>.

  Floating point numbers are idealised as \<^typ>\<open>real\<close>: rounding in the cumulative sum,
  infinities and NaN are outside the model. A one-dimensional numpy array is a list. An
  exception is a value \<open>Inl e\<close> of the result type \<open>error + 'a\<close>.
\<close>

subsection \<open>Errors and indexing\<close>

datatype error = IndexError

text \<open>\<^verbatim>\<open>a[k]\<close> for an index \<open>k \<ge> 0\<close>: out of range raises.\<close>

definition getitem :: "'a list \<Rightarrow> nat \<Rightarrow> error + 'a" where
  "getitem a k = (if k < length a then Inr (a ! k) else Inl IndexError)"

text \<open>\<^verbatim>\<open>a[i]\<close> for an array \<open>i\<close> of indices (fancy indexing): one index out of range
  raises, otherwise the elements are gathered in the order of \<open>i\<close>.\<close>

definition take_idx :: "'a list \<Rightarrow> nat list \<Rightarrow> error + 'a list" where
  "take_idx a i = (if list_all (\<lambda>j. j < length a) i then Inr (map (nth a) i) else Inl IndexError)"

text \<open>\<^verbatim>\<open>c[-1]\<close>: the last element, an error on the empty array.\<close>

definition last_item :: "'a list \<Rightarrow> error + 'a" where
  "last_item c = (if c = [] then Inl IndexError else Inr (last c))"

subsection \<open>The numpy operations used by the weighted median\<close>

text \<open>
  \<^verbatim>\<open>np.argsort(values)\<close> returns the indices that put \<open>values\<close> in ascending order.
  The call in the source passes no \<^verbatim>\<open>kind\<close>, and numpy promises no particular order among
  equal values for its default kind. \<open>is_argsort\<close> is that contract; \<open>argsort\<close> is the
  one result the model computes with (insertion of the indices by value).
  Lemma \<open>weighted_median_at_lower_median\<close> below shows that the weighted median is the same for
  every result that meets the contract.
\<close>

definition is_argsort :: "'a::linorder list \<Rightarrow> nat list \<Rightarrow> bool" where
  "is_argsort values i \<longleftrightarrow>
     mset i = mset [0..<length values] \<and> sorted (map (nth values) i)"

definition argsort :: "real list \<Rightarrow> nat list" where
  "argsort values = sort_key (nth values) [0..<length values]"

text \<open>\<^verbatim>\<open>np.cumsum(w)\<close>: the running sums \<open>w\<^sub>0, w\<^sub>0 + w\<^sub>1, \<dots>\<close>\<close>

fun cumsum_from :: "real \<Rightarrow> real list \<Rightarrow> real list" where
  "cumsum_from acc [] = []"
| "cumsum_from acc (w # ws) = (acc + w) # cumsum_from (acc + w) ws"

definition cumsum :: "real list \<Rightarrow> real list" where
  "cumsum ws = cumsum_from 0 ws"

text \<open>
  \<^verbatim>\<open>np.searchsorted(c, key)\<close> with the default \<^verbatim>\<open>side='left'\<close>: a binary search between
  \<open>min_idx\<close> and \<open>max_idx\<close> that moves the lower bound past every probed element smaller
  than the key. On an ascending array the result is the first position whose element is
  not smaller than the key (lemma \<open>searchsorted_sorted\<close>).
\<close>

function searchsorted_loop :: "'a::linorder list \<Rightarrow> 'a \<Rightarrow> nat \<Rightarrow> nat \<Rightarrow> nat" where
  "searchsorted_loop arr key min_idx max_idx =
     (if min_idx < max_idx then
        (let mid_idx = min_idx + (max_idx - min_idx) div 2 in
         if arr ! mid_idx < key then searchsorted_loop arr key (mid_idx + 1) max_idx
         else searchsorted_loop arr key min_idx mid_idx)
      else min_idx)"
  by pat_completeness auto
termination
  by (relation "measure (\<lambda>(arr, key, min_idx, max_idx). max_idx - min_idx)") auto

declare searchsorted_loop.simps [simp del]

definition searchsorted :: "'a::linorder list \<Rightarrow> 'a \<Rightarrow> nat" where
  "searchsorted arr key = searchsorted_loop arr key 0 (length arr)"

subsection \<open>The weighted median\<close>

text \<open>
  \<^verbatim>\<open>
  def weighted_median(values, weights):
      i = np.argsort(values)
      c = np.cumsum(weights[i])
      return values[i[np.searchsorted(c, 0.5 * c[-1])]]
  \<close>
  \<open>weighted_median_at i\<close> is the body after the first line, for a given result \<open>i\<close> of
  the sort.
\<close>

definition weighted_median_at :: "nat list \<Rightarrow> real list \<Rightarrow> real list \<Rightarrow> error + real" where
  "weighted_median_at i values weights =
     (case take_idx weights i of
        Inl e \<Rightarrow> Inl e
      | Inr wi \<Rightarrow>
          (let c = cumsum wi in
           case last_item c of
             Inl e \<Rightarrow> Inl e
           | Inr tw \<Rightarrow>
               (case getitem i (searchsorted c (0.5 * tw)) of
                  Inl e \<Rightarrow> Inl e
                | Inr j \<Rightarrow> getitem values j)))"

definition weighted_median :: "real list \<Rightarrow> real list \<Rightarrow> error + real" where
  "weighted_median values weights = weighted_median_at (argsort values) values weights"

text \<open>
  Two order-free quantities, used to show that the result does not depend on how the sort
  arranges equal values: the weight carried by the values up to \<open>v\<close>, and the least
  value up to which at least half of the total weight lies.
\<close>

definition weight_upto :: "real list \<Rightarrow> real list \<Rightarrow> real \<Rightarrow> real" where
  "weight_upto values weights v =
     sum_list (map snd (filter (\<lambda>p. fst p \<le> v) (zip values weights)))"

definition lower_weighted_median :: "real list \<Rightarrow> real list \<Rightarrow> real" where
  "lower_weighted_median values weights =
     Min {v \<in> set values. sum_list weights / 2 \<le> weight_upto values weights v}"

subsection \<open>Embeddings and comparisons\<close>

text \<open>
  Modelled from the spec: the classes \<^verbatim>\<open>Embedding\<close> and \<^verbatim>\<open>EmbeddingComparison\<close>
  (\<^verbatim>\<open>embsuivi/embedding.py\<close>, \<^verbatim>\<open>embsuivi/embeddings_compare.py\<close>) are not among the
  sources; only the calls \<^verbatim>\<open>get_frequency\<close>, \<^verbatim>\<open>is_frequency_set\<close>, \<^verbatim>\<open>embeddings\<close>,
  \<^verbatim>\<open>neighborhoods_similarities\<close> and \<^verbatim>\<open>neighborhoods_similarities_values\<close> are.
  An embedding carries a frequency table or none; \<^verbatim>\<open>get_frequency\<close> is the frequency of a
  key, and 0 where the embedding has no frequency for it. A comparison holds its two
  embeddings and the two similarity mappings, each a dictionary in its key order; the
  \<^verbatim>\<open>_values\<close> attributes are the value sequences aligned with that order.
\<close>

record embedding =
  frequencies :: "(string \<rightharpoonup> real) option"

definition is_frequency_set :: "embedding \<Rightarrow> bool" where
  "is_frequency_set emb \<longleftrightarrow> frequencies emb \<noteq> None"

definition get_frequency :: "embedding \<Rightarrow> string \<Rightarrow> real" where
  "get_frequency emb k =
     (case frequencies emb of
        None \<Rightarrow> 0
      | Some table \<Rightarrow> (case table k of None \<Rightarrow> 0 | Some f \<Rightarrow> f))"

record comparison =
  embeddings :: "embedding \<times> embedding"
  neighborhoods_similarities :: "(string \<times> real) list"
  neighborhoods_ordered_similarities :: "(string \<times> real) list"

definition neighborhoods_similarities_values :: "comparison \<Rightarrow> real list" where
  "neighborhoods_similarities_values cmp = map snd (neighborhoods_similarities cmp)"

definition neighborhoods_ordered_similarities_values :: "comparison \<Rightarrow> real list" where
  "neighborhoods_ordered_similarities_values cmp =
     map snd (neighborhoods_ordered_similarities cmp)"

text \<open>
  \<^verbatim>\<open>
  def compute_weighted_median_similarity(comparison):
      emb1, emb2 = comparison.embeddings
      freqs_1 = np.array([emb1.get_frequency(k) for k in comparison.neighborhoods_similarities])
      freqs_2 = np.array([emb2.get_frequency(k) for k in comparison.neighborhoods_similarities])
      freqs_mean = (freqs_1 + freqs_2) / 2
      return weighted_median(comparison.neighborhoods_similarities_values, freqs_mean)
  \<close>
  Iterating over a dictionary yields its keys.
\<close>

definition compute_weighted_median_similarity :: "comparison \<Rightarrow> error + real" where
  "compute_weighted_median_similarity cmp =
     (case embeddings cmp of
        (emb1, emb2) \<Rightarrow>
          (let freqs_1 = map (get_frequency emb1) (map fst (neighborhoods_similarities cmp));
               freqs_2 = map (get_frequency emb2) (map fst (neighborhoods_similarities cmp));
               freqs_mean = map2 (\<lambda>f1 f2. (f1 + f2) / 2) freqs_1 freqs_2
           in weighted_median (neighborhoods_similarities_values cmp) freqs_mean))"

definition compute_weighted_median_ordered_similarity :: "comparison \<Rightarrow> error + real" where
  "compute_weighted_median_ordered_similarity cmp =
     (case embeddings cmp of
        (emb1, emb2) \<Rightarrow>
          (let freqs_1 = map (get_frequency emb1) (map fst (neighborhoods_ordered_similarities cmp));
               freqs_2 = map (get_frequency emb2) (map fst (neighborhoods_ordered_similarities cmp));
               freqs_mean = map2 (\<lambda>f1 f2. (f1 + f2) / 2) freqs_1 freqs_2
           in weighted_median (neighborhoods_ordered_similarities_values cmp) freqs_mean))"

subsection \<open>The advanced parameters\<close>

text \<open>
  \<^verbatim>\<open>
  class AdvancedParameters:
      n_neighbors: int = 25
      max_emb_size: int = 10000
      min_frequency: float = 0.0

      def __init__(self, **kwargs):
          for key, value in kwargs.items():
              setattr(self, key, value)
  \<close>
  An object is the dictionary of the attributes set on it; reading an attribute falls back
  to the class attributes. The constructor has no \<^verbatim>\<open>raise\<close>: its result is always \<open>Inr\<close>.
\<close>

datatype pyval = PyInt int | PyFloat real

type_synonym pyobject = "string \<rightharpoonup> pyval"

definition AdvancedParameters_class :: pyobject where
  "AdvancedParameters_class =
     [''n_neighbors'' \<mapsto> PyInt 25, ''max_emb_size'' \<mapsto> PyInt 10000,
      ''min_frequency'' \<mapsto> PyFloat 0]"

definition setattr :: "pyobject \<Rightarrow> string \<Rightarrow> pyval \<Rightarrow> pyobject" where
  "setattr self key v = self(key \<mapsto> v)"

definition getattr :: "pyobject \<Rightarrow> string \<Rightarrow> pyval option" where
  "getattr self key = (case self key of Some v \<Rightarrow> Some v | None \<Rightarrow> AdvancedParameters_class key)"

fun AdvancedParameters_setattrs :: "pyobject \<Rightarrow> (string \<times> pyval) list \<Rightarrow> pyobject" where
  "AdvancedParameters_setattrs self [] = self"
| "AdvancedParameters_setattrs self ((key, v) # kwargs) =
     AdvancedParameters_setattrs (setattr self key v) kwargs"

definition AdvancedParameters_init :: "(string \<times> pyval) list \<Rightarrow> error + pyobject" where
  "AdvancedParameters_init kwargs = Inr (AdvancedParameters_setattrs Map.empty kwargs)"

text \<open>
  In \<^verbatim>\<open>app.py\<close> the configuration is a named tuple of two fields, built from the values
  the two number inputs of the sidebar return:
  \<^verbatim>\<open>
  AdvancedParameters = namedtuple("AdvancedParameters", ["n_neighbors", "max_emb_size"])

  def get_advanced_parameters():
      n_neighbors = st.number_input(..., min_value=1, max_value=1000, value=25)
      max_emb_size = st.number_input(..., min_value=100, max_value=200000, value=10000)
      return AdvancedParameters(n_neighbors, max_emb_size)
  \<close>
  The number inputs belong to the user interface library; the values they return are
  the arguments of the model.
\<close>

record advanced_parameters =
  n_neighbors :: int
  max_emb_size :: int

definition AdvancedParameters :: "int \<Rightarrow> int \<Rightarrow> error + advanced_parameters" where
  "AdvancedParameters n m = Inr \<lparr>n_neighbors = n, max_emb_size = m\<rparr>"

definition get_advanced_parameters :: "int \<Rightarrow> int \<Rightarrow> error + advanced_parameters" where
  "get_advanced_parameters n_neighbors_input max_emb_size_input =
     AdvancedParameters n_neighbors_input max_emb_size_input"

section \<open>Properties of the numpy operations\<close>

lemma length_cumsum_from: "length (cumsum_from a ws) = length ws"
  by (induction ws arbitrary: a) simp_all

lemma length_cumsum: "length (cumsum ws) = length ws"
  by (simp add: cumsum_def length_cumsum_from)

lemma cumsum_from_nth:
  "k < length ws \<Longrightarrow> cumsum_from a ws ! k = a + sum_list (take (Suc k) ws)"
proof (induction ws arbitrary: a k)
  case Nil
  then show ?case by simp
next
  case (Cons w ws)
  show ?case
  proof (cases k)
    case 0
    then show ?thesis by simp
  next
    case (Suc m)
    with Cons.prems have "m < length ws" by simp
    from Cons.IH [OF this, of "a + w"] Suc show ?thesis by simp
  qed
qed

lemma cumsum_nth: "k < length ws \<Longrightarrow> cumsum ws ! k = sum_list (take (Suc k) ws)"
  by (simp add: cumsum_def cumsum_from_nth)

lemma cumsum_eq_Nil: "cumsum ws = [] \<longleftrightarrow> ws = []"
  using length_cumsum [of ws] by (metis length_0_conv)

lemma last_cumsum: "ws \<noteq> [] \<Longrightarrow> last (cumsum ws) = sum_list ws"
proof -
  assume ne: "ws \<noteq> []"
  then have "last (cumsum ws) = cumsum ws ! (length ws - 1)"
    by (simp add: last_conv_nth cumsum_eq_Nil length_cumsum)
  also from ne have "\<dots> = sum_list (take (Suc (length ws - 1)) ws)"
    by (intro cumsum_nth) simp
  also from ne have "\<dots> = sum_list ws" by simp
  finally show ?thesis .
qed

lemma sum_list_take_mono:
  fixes ws :: "real list"
  assumes "list_all (\<lambda>w. 0 \<le> w) ws" and "m \<le> n"
  shows "sum_list (take m ws) \<le> sum_list (take n ws)"
proof -
  have "take n ws = take m ws @ take (n - m) (drop m ws)"
    using assms(2) by (metis le_add_diff_inverse take_add)
  moreover have "0 \<le> sum_list (take (n - m) (drop m ws))"
    using assms(1) by (intro sum_list_nonneg) (auto simp: list_all_iff dest: in_set_takeD in_set_dropD)
  ultimately show ?thesis by simp
qed

lemma sorted_cumsum:
  assumes "list_all (\<lambda>w. 0 \<le> w) ws"
  shows "sorted (cumsum ws)"
  unfolding sorted_iff_nth_mono
  using assms by (auto simp: length_cumsum cumsum_nth intro: sum_list_take_mono)

lemma searchsorted_loop_sorted:
  assumes "sorted arr" and "lo \<le> hi" and "hi \<le> length arr"
    and "\<And>j. j < lo \<Longrightarrow> arr ! j < key"
    and "\<And>j. hi \<le> j \<Longrightarrow> j < length arr \<Longrightarrow> key \<le> arr ! j"
  shows "lo \<le> searchsorted_loop arr key lo hi \<and> searchsorted_loop arr key lo hi \<le> hi
    \<and> (\<forall>j < searchsorted_loop arr key lo hi. arr ! j < key)
    \<and> (\<forall>j. searchsorted_loop arr key lo hi \<le> j \<and> j < length arr \<longrightarrow> key \<le> arr ! j)"
  using assms
proof (induction arr key lo hi rule: searchsorted_loop.induct)
  case (1 arr key lo hi)
  show ?case
  proof (cases "lo < hi")
    case False
    with "1.prems" have "lo = hi" by simp
    with "1.prems" show ?thesis by (simp add: searchsorted_loop.simps [of arr key hi hi])
  next
    case True
    define mid where "mid = lo + (hi - lo) div 2"
    from True have mid: "lo \<le> mid" "mid < hi" by (simp_all add: mid_def) 
    show ?thesis
    proof (cases "arr ! mid < key")
      case lt: True
      have eq: "searchsorted_loop arr key lo hi = searchsorted_loop arr key (mid + 1) hi"
        using True lt by (subst searchsorted_loop.simps) (simp add: mid_def Let_def)
      have below: "arr ! j < key" if "j < mid + 1" for j
      proof -
        from that mid "1.prems"(3) have "j \<le> mid" "mid < length arr" by simp_all
        with "1.prems"(1) have "arr ! j \<le> arr ! mid" by (simp add: sorted_nth_mono)
        with lt show ?thesis by simp
      qed
      from "1.IH"(1) [OF True mid_def lt "1.prems"(1) _ "1.prems"(3) below "1.prems"(5)] mid
      show ?thesis unfolding eq by auto
    next
      case ge: False
      have eq: "searchsorted_loop arr key lo hi = searchsorted_loop arr key lo mid"
        using True ge by (subst searchsorted_loop.simps) (simp add: mid_def Let_def)
      have above: "key \<le> arr ! j" if "mid \<le> j" "j < length arr" for j
      proof -
        from that "1.prems"(1) have "arr ! mid \<le> arr ! j" by (simp add: sorted_nth_mono)
        with ge show ?thesis by simp
      qed
      from "1.IH"(2) [OF True mid_def ge "1.prems"(1) mid(1) _ "1.prems"(4) above] mid "1.prems"(3)
      show ?thesis unfolding eq by auto
    qed
  qed
qed

lemma searchsorted_sorted:
  assumes "sorted arr"
  shows "searchsorted arr key \<le> length arr"
    and "j < searchsorted arr key \<Longrightarrow> arr ! j < key"
    and "searchsorted arr key \<le> j \<Longrightarrow> j < length arr \<Longrightarrow> key \<le> arr ! j"
  using searchsorted_loop_sorted [OF assms, of 0 "length arr" key]
  by (simp_all add: searchsorted_def)

subsection \<open>Results of the sort\<close>

lemma is_argsort_length: "is_argsort values i \<Longrightarrow> length i = length values"
  by (metis is_argsort_def size_mset length_upt diff_zero)

lemma is_argsort_set: "is_argsort values i \<Longrightarrow> set i = {..<length values}"
  by (metis is_argsort_def set_mset_mset set_upt atLeast_upt)

lemma is_argsort_nth: "is_argsort values i \<Longrightarrow> k < length values \<Longrightarrow> i ! k < length values"
  using is_argsort_set [of "values" i] is_argsort_length [of "values" i] nth_mem [of k i]
  by auto

lemma is_argsort_argsort: "is_argsort values (argsort values)"
  by (simp add: is_argsort_def argsort_def sorted_sort_key)

lemma is_argsort_mset_map:
  assumes "is_argsort values i" and "length xs = length values"
  shows "mset (map (nth xs) i) = mset xs"
proof -
  have "mset (map (nth xs) i) = image_mset (nth xs) (mset i)" by simp
  also have "\<dots> = image_mset (nth xs) (mset [0..<length xs])"
    using assms by (simp add: is_argsort_def)
  also have "\<dots> = mset (map (nth xs) [0..<length xs])" by simp
  also have "\<dots> = mset xs" by (simp add: map_nth)
  finally show ?thesis .
qed

lemma is_argsort_take_idx:
  assumes "is_argsort values i" and "length weights = length values"
  shows "take_idx weights i = Inr (map (nth weights) i)"
  using is_argsort_set [OF assms(1)] assms(2) by (simp add: take_idx_def list_all_iff)

lemma is_argsort_nonneg:
  assumes "is_argsort values i" and "length weights = length values"
    and "list_all (\<lambda>w. 0 \<le> w) weights"
  shows "list_all (\<lambda>w. 0 \<le> w) (map (nth weights) i)"
  using is_argsort_set [OF assms(1)] assms(2,3) by (auto simp: list_all_iff)

lemma is_argsort_sum_list:
  fixes weights :: "real list"
  assumes "is_argsort values i" and "length weights = length values"
  shows "sum_list (map (nth weights) i) = sum_list weights"
  using is_argsort_mset_map [OF assms] by (metis sum_mset_sum_list)

text \<open>The position found by the search, for any admissible result of the sort.\<close>

lemma weighted_median_at_position:
  assumes srt: "is_argsort values i" and len: "length weights = length values"
    and ne: "values \<noteq> []" and nonneg: "list_all (\<lambda>w. 0 \<le> w) weights"
  defines "sw \<equiv> map (nth weights) i"
  defines "k \<equiv> searchsorted (cumsum sw) (sum_list weights / 2)"
  shows "k < length values"
    and "weighted_median_at i values weights = Inr (values ! (i ! k))"
    and "sum_list weights / 2 \<le> sum_list (take (Suc k) sw)"
    and "k' < k \<Longrightarrow> sum_list (take (Suc k') sw) < sum_list weights / 2"
proof -
  let ?n = "length values"
  let ?c = "cumsum sw"
  let ?T = "sum_list weights"
  have li: "length i = ?n" by (rule is_argsort_length [OF srt])
  have lsw: "length sw = ?n" by (simp add: sw_def li)
  have swne: "sw \<noteq> []" using lsw ne by auto
  have sw_nonneg: "list_all (\<lambda>w. 0 \<le> w) sw"
    unfolding sw_def by (rule is_argsort_nonneg [OF srt len nonneg])
  have sorted_c: "sorted ?c" by (rule sorted_cumsum [OF sw_nonneg])
  have sum_sw: "sum_list sw = ?T" unfolding sw_def by (rule is_argsort_sum_list [OF srt len])
  have last_c: "last ?c = ?T" using last_cumsum [OF swne] sum_sw by simp
  have T0: "0 \<le> ?T" using nonneg by (intro sum_list_nonneg) (simp add: list_all_iff)
  have k_le: "k \<le> ?n"
    using searchsorted_sorted(1) [OF sorted_c] by (simp add: k_def length_cumsum lsw)
  show k_lt: "k < ?n"
  proof (rule ccontr)
    assume "\<not> k < ?n"
    with k_le have "k = ?n" by simp
    with ne have "?n - 1 < k" by simp
    then have "?c ! (?n - 1) < ?T / 2"
      unfolding k_def by (rule searchsorted_sorted(2) [OF sorted_c])
    moreover have "?c ! (?n - 1) = ?T"
      using last_c swne lsw by (simp add: last_conv_nth cumsum_eq_Nil length_cumsum)
    ultimately show False using T0 by simp
  qed
  have "i ! k < ?n" by (rule is_argsort_nth [OF srt k_lt])
  then show "weighted_median_at i values weights = Inr (values ! (i ! k))"
    using k_lt li swne last_c
    by (simp add: weighted_median_at_def is_argsort_take_idx [OF srt len] sw_def [symmetric]
        last_item_def cumsum_eq_Nil getitem_def k_def [symmetric] Let_def)
  have "?T / 2 \<le> ?c ! k"
    using k_lt unfolding k_def
    by (intro searchsorted_sorted(3) [OF sorted_c]) (simp_all add: length_cumsum lsw)
  then show "?T / 2 \<le> sum_list (take (Suc k) sw)"
    using k_lt by (simp add: cumsum_nth lsw)
  show "sum_list (take (Suc k') sw) < ?T / 2" if "k' < k" for k'
  proof -
    from that have "?c ! k' < ?T / 2"
      unfolding k_def by (rule searchsorted_sorted(2) [OF sorted_c])
    then show ?thesis using that k_lt by (simp add: cumsum_nth lsw)
  qed
qed

subsection \<open>Independence of the order among equal values\<close>

lemma sum_snd_filter_mset:
  fixes xs ys :: "(real \<times> real) list"
  assumes "mset xs = mset ys"
  shows "sum_list (map snd (filter P xs)) = sum_list (map snd (filter P ys))"
proof -
  have "sum_list (map snd (filter P zs)) = sum_mset (image_mset snd (filter_mset P (mset zs)))"
    for zs :: "(real \<times> real) list"
    by (metis mset_filter mset_map sum_mset_sum_list)
  with assms show ?thesis by simp
qed

lemma sum_snd_filter_le:
  fixes zs :: "(real \<times> real) list"
  assumes "list_all (\<lambda>p. 0 \<le> snd p) zs"
  shows "sum_list (map snd (filter P zs)) \<le> sum_list (map snd zs)"
  using assms by (induction zs) auto

lemma sum_snd_filter_nonneg:
  fixes zs :: "(real \<times> real) list"
  assumes "list_all (\<lambda>p. 0 \<le> snd p) zs"
  shows "0 \<le> sum_list (map snd (filter P zs))"
  using assms by (induction zs) auto

lemma zip_snd_nonneg:
  fixes ws :: "real list"
  assumes "list_all (\<lambda>w. 0 \<le> w) ws"
  shows "list_all (\<lambda>p. 0 \<le> snd p) (zip vs ws)"
  unfolding list_all_iff
proof
  fix p assume "p \<in> set (zip vs ws)"
  then have "snd p \<in> set ws"
    using set_zip_rightD [of "fst p" "snd p" vs ws] by simp
  with assms show "0 \<le> snd p" by (simp add: list_all_iff)
qed

lemma weight_upto_sorted:
  assumes srt: "is_argsort values i" and len: "length weights = length values"
  shows "weight_upto values weights v =
    sum_list (map snd (filter (\<lambda>p. fst p \<le> v) (zip (map (nth values) i) (map (nth weights) i))))"
proof -
  let ?ps = "zip values weights"
  have lps: "length ?ps = length values" using len by simp
  have "map (nth ?ps) i = map (\<lambda>j. (values ! j, weights ! j)) i"
  proof (rule map_cong [OF refl])
    fix j assume "j \<in> set i"
    then have "j < length values" using is_argsort_set [OF srt] by simp
    then show "?ps ! j = (values ! j, weights ! j)" using len by simp
  qed
  also have "\<dots> = zip (map (nth values) i) (map (nth weights) i)"
    by (simp add: zip_map_map zip_same_conv_map)
  finally have eq: "zip (map (nth values) i) (map (nth weights) i) = map (nth ?ps) i"
    by (rule sym)
  have "mset ?ps = mset (map (nth ?ps) i)"
    using is_argsort_mset_map [OF srt lps] by (rule sym)
  from sum_snd_filter_mset [OF this] show ?thesis
    unfolding weight_upto_def eq .
qed

lemma weight_upto_ge:
  assumes srt: "is_argsort values i" and len: "length weights = length values"
    and nonneg: "list_all (\<lambda>w. 0 \<le> w) weights" and k: "k < length values"
  shows "sum_list (take (Suc k) (map (nth weights) i)) \<le> weight_upto values weights (values ! (i ! k))"
proof -
  let ?sv = "map (nth values) i" and ?sw = "map (nth weights) i"
  let ?zs = "zip ?sv ?sw"
  let ?P = "\<lambda>p::real \<times> real. fst p \<le> values ! (i ! k)"
  have li: "length i = length values" by (rule is_argsort_length [OF srt])
  have sorted_sv: "sorted ?sv" using srt by (simp add: is_argsort_def)
  have all_P: "\<forall>p \<in> set (take (Suc k) ?zs). ?P p"
  proof
    fix p assume "p \<in> set (take (Suc k) ?zs)"
    then obtain m where m: "m < Suc k" "m < length ?zs" "p = ?zs ! m"
      by (auto simp: in_set_conv_nth)
    then have "fst p = ?sv ! m" by simp
    moreover have "?sv ! m \<le> ?sv ! k"
      using m(1) k li by (intro sorted_nth_mono [OF sorted_sv]) simp_all
    ultimately show "?P p" using k li by simp
  qed
  have sw_nonneg: "list_all (\<lambda>w. 0 \<le> w) ?sw"
    by (rule is_argsort_nonneg [OF srt len nonneg])
  have "list_all (\<lambda>p. 0 \<le> snd p) (drop (Suc k) ?zs)"
    using zip_snd_nonneg [OF sw_nonneg, of ?sv] by (auto simp: list_all_iff dest: in_set_dropD)
  then have rest: "0 \<le> sum_list (map snd (filter ?P (drop (Suc k) ?zs)))"
    by (rule sum_snd_filter_nonneg)
  have "filter ?P ?zs = filter ?P (take (Suc k) ?zs) @ filter ?P (drop (Suc k) ?zs)"
    by (metis append_take_drop_id filter_append)
  also have "filter ?P (take (Suc k) ?zs) = take (Suc k) ?zs"
    using all_P by (simp add: filter_id_conv)
  finally have a: "sum_list (map snd (filter ?P ?zs)) =
      sum_list (map snd (take (Suc k) ?zs)) + sum_list (map snd (filter ?P (drop (Suc k) ?zs)))"
    by simp
  have b: "map snd (take (Suc k) ?zs) = take (Suc k) ?sw"
    by (metis take_map map_snd_zip length_map)
  have c: "weight_upto values weights (values ! (i ! k)) = sum_list (map snd (filter ?P ?zs))"
    by (rule weight_upto_sorted [OF srt len])
  show ?thesis
    unfolding c a b using rest by linarith
qed

lemma weight_upto_le:
  assumes srt: "is_argsort values i" and len: "length weights = length values"
    and nonneg: "list_all (\<lambda>w. 0 \<le> w) weights" and k: "k < length values"
    and v: "v < values ! (i ! k)"
  shows "weight_upto values weights v \<le> sum_list (take k (map (nth weights) i))"
proof -
  let ?sv = "map (nth values) i" and ?sw = "map (nth weights) i"
  let ?zs = "zip ?sv ?sw"
  let ?P = "\<lambda>p::real \<times> real. fst p \<le> v"
  have li: "length i = length values" by (rule is_argsort_length [OF srt])
  have sorted_sv: "sorted ?sv" using srt by (simp add: is_argsort_def)
  have none_P: "\<forall>p \<in> set (drop k ?zs). \<not> ?P p"
  proof
    fix p assume "p \<in> set (drop k ?zs)"
    then obtain m where "m < length (drop k ?zs)" "drop k ?zs ! m = p"
      unfolding in_set_conv_nth by blast
    then have m: "k + m < length ?zs" "p = ?zs ! (k + m)"
      by simp_all
    then have "fst p = ?sv ! (k + m)" by simp
    moreover have "?sv ! k \<le> ?sv ! (k + m)"
      using m(1) by (intro sorted_nth_mono [OF sorted_sv]) simp_all
    ultimately show "\<not> ?P p" using k li v by simp
  qed
  have sw_nonneg: "list_all (\<lambda>w. 0 \<le> w) ?sw"
    by (rule is_argsort_nonneg [OF srt len nonneg])
  have "list_all (\<lambda>p. 0 \<le> snd p) (take k ?zs)"
    using zip_snd_nonneg [OF sw_nonneg, of ?sv] by (auto simp: list_all_iff dest: in_set_takeD)
  then have le: "sum_list (map snd (filter ?P (take k ?zs))) \<le> sum_list (map snd (take k ?zs))"
    by (rule sum_snd_filter_le)
  have "filter ?P ?zs = filter ?P (take k ?zs) @ filter ?P (drop k ?zs)"
    by (metis append_take_drop_id filter_append)
  also have "filter ?P (drop k ?zs) = []"
    using none_P by (simp add: filter_empty_conv)
  finally have a: "sum_list (map snd (filter ?P ?zs)) = sum_list (map snd (filter ?P (take k ?zs)))"
    by simp
  have b: "map snd (take k ?zs) = take k ?sw"
    by (metis take_map map_snd_zip length_map)
  have c: "weight_upto values weights v = sum_list (map snd (filter ?P ?zs))"
    by (rule weight_upto_sorted [OF srt len])
  show ?thesis
    unfolding c a using le unfolding b by linarith
qed

text \<open>The result does not depend on the order the sort gives to equal values.\<close>

lemma weighted_median_at_lower_median:
  assumes srt: "is_argsort values i" and len: "length weights = length values"
    and ne: "values \<noteq> []" and nonneg: "list_all (\<lambda>w. 0 \<le> w) weights"
  shows "weighted_median_at i values weights = Inr (lower_weighted_median values weights)"
proof -
  let ?sw = "map (nth weights) i"
  let ?T = "sum_list weights"
  define k where "k = searchsorted (cumsum ?sw) (?T / 2)"
  note pos = weighted_median_at_position [OF srt len ne nonneg, folded k_def]
  let ?S = "{v \<in> set values. ?T / 2 \<le> weight_upto values weights v}"
  let ?m = "values ! (i ! k)"
  have ik: "i ! k < length values" by (rule is_argsort_nth [OF srt pos(1)])
  have "?T / 2 \<le> weight_upto values weights ?m"
    using pos(3) weight_upto_ge [OF srt len nonneg pos(1)] by simp
  with ik have in_S: "?m \<in> ?S" by simp
  have least: "?m \<le> v" if "v \<in> ?S" for v
  proof (rule ccontr)
    assume "\<not> ?m \<le> v"
    then have lt: "v < ?m" by simp
    from that have "v \<in> set (map (nth values) i)"
      using is_argsort_mset_map [OF srt refl] set_mset_mset [of "map (nth values) i"]
      by simp
    then obtain p where p: "p < length i" "values ! (i ! p) = v"
      by (auto simp: in_set_conv_nth)
    have "sorted (map (nth values) i)" using srt by (simp add: is_argsort_def)
    have "p < k"
    proof (rule ccontr)
      assume "\<not> p < k"
      then have "k \<le> p" by simp
      with p(1) \<open>sorted (map (nth values) i)\<close> have "map (nth values) i ! k \<le> map (nth values) i ! p"
        by (intro sorted_nth_mono) simp_all
      with p \<open>k \<le> p\<close> lt show False by simp
    qed
    then obtain k' where k': "k = Suc k'" by (cases k) simp_all
    have "weight_upto values weights v \<le> sum_list (take k ?sw)"
      by (rule weight_upto_le [OF srt len nonneg pos(1) lt])
    also have "\<dots> < ?T / 2" using pos(4) [of k'] k' by simp
    finally show False using that by simp
  qed
  have "Min ?S = ?m"
  proof (rule Min_eqI)
    show "finite ?S" by simp
    show "?m \<le> y" if "y \<in> ?S" for y using least [OF that] .
    show "?m \<in> ?S" by (rule in_S)
  qed
  with pos(2) show ?thesis by (simp add: lower_weighted_median_def)
qed

section \<open>The weighted median\<close>

lemmas weighted_median_eval =
  weighted_median_def weighted_median_at_def argsort_def take_idx_def cumsum_def
  last_item_def getitem_def searchsorted_def searchsorted_loop.simps

lemma nonneg_list_all:
  "(\<forall>w\<in>set weights. (0::real) \<le> w) \<Longrightarrow> list_all (\<lambda>w. 0 \<le> w) weights"
  by (simp add: list_all_iff)

lemma weighted_median_lower_median:
  assumes "length weights = length values" and "values \<noteq> []"
    and "list_all (\<lambda>w. 0 \<le> w) weights"
  shows "weighted_median values weights = Inr (lower_weighted_median values weights)"
  unfolding weighted_median_def
  by (rule weighted_median_at_lower_median [OF is_argsort_argsort assms])




text \<open>
  Claim C7. For a single value \<open>v\<close> and any single weight \<open>w\<close> of the input contract
  (a non-negative weight, zero included), \<open>weighted_median [v] [w]\<close> returns \<open>v\<close>,
  whatever the magnitude of \<open>w\<close>: the only cumulative sum is \<open>w\<close>, which is not below
  \<open>0.5 * w\<close>, so the search returns position 0.
\<close>

theorem weighted_median_single:
  "0 \<le> w \<Longrightarrow> weighted_median [v] [w] = Inr v"
  by (simp add: weighted_median_eval)

theorem weighted_median_single_witness:
  "(0::real) \<le> 0.3 \<and> weighted_median [5] [0.3] = Inr 5"
  using weighted_median_single [of "0.3" 5] by simp

lemma sum_list_all_zero:
  fixes xs :: "real list"
  shows "list_all (\<lambda>x. x = 0) xs \<Longrightarrow> sum_list xs = 0"
  by (induction xs) simp_all

lemma weight_upto_all_zero:
  assumes "list_all (\<lambda>w. w = 0) weights"
  shows "weight_upto values weights v = 0"
  unfolding weight_upto_def
proof (rule sum_list_all_zero)
  show "list_all (\<lambda>x. x = 0) (map snd (filter (\<lambda>p. fst p \<le> v) (zip values weights)))"
    unfolding list_all_iff
  proof
    fix x assume "x \<in> set (map snd (filter (\<lambda>p. fst p \<le> v) (zip values weights)))"
    then obtain p where "p \<in> set (zip values weights)" "x = snd p" by auto
    then have "x \<in> set weights"
      using set_zip_rightD [of "fst p" "snd p" "values" weights] by simp
    with assms show "x = 0" by (simp add: list_all_iff)
  qed
qed

lemma weighted_median_all_zero:
  assumes ne: "values \<noteq> []" and len: "length weights = length values"
    and zero: "list_all (\<lambda>w. w = 0) weights"
  shows "weighted_median values weights = Inr (Min (set values))"
proof -
  have nonneg: "list_all (\<lambda>w. 0 \<le> w) weights"
    using zero by (auto simp: list_all_iff)
  have "sum_list weights = 0" by (rule sum_list_all_zero [OF zero])
  then have "{v \<in> set values. sum_list weights / 2 \<le> weight_upto values weights v} = set values"
    by (simp add: weight_upto_all_zero [OF zero])
  then have "lower_weighted_median values weights = Min (set values)"
    by (simp add: lower_weighted_median_def)
  with weighted_median_lower_median [OF len ne nonneg] show ?thesis by simp
qed

text \<open>
  Claim C2, as stated: with all weights 0 the call fails with an error. It does not: the
  function never divides, half the total weight is 0, the first cumulative sum already
  reaches it, and the smallest value is returned.
\<close>

theorem weighted_median_zero_weights_counterexample:
  "weighted_median [1, 2, 3] [0, 0, 0] = Inr 1"
  by (simp add: weighted_median_eval upt_rec)

text \<open>
  Claim C2, amended: for every non-empty list of values whose weights are all 0,
  \<open>weighted_median\<close> raises no error and returns the smallest of the values.
\<close>

theorem weighted_median_zero_weights:
  assumes "values \<noteq> []" and "length weights = length values" and "\<forall>w\<in>set weights. w = 0"
  shows "weighted_median values weights = Inr (Min (set values))"
  using assms by (intro weighted_median_all_zero) (simp_all add: list_all_iff)

theorem weighted_median_zero_weights_witness:
  "weighted_median [3, 1, 2] [0, 0, 0] = Inr 1"
  using weighted_median_zero_weights [of "[3, 1, 2]" "[0, 0, 0]"] by simp

text \<open>
  Claim C10. For a non-empty list of values and an equal-length list of non-negative
  weights, the all-zero case included, every index used inside \<open>weighted_median\<close> is in
  range: the indices \<open>i\<close> of the sort index \<open>weights\<close> and \<open>values\<close>, the cumulative
  sums are not empty, the searched position \<open>k\<close> indexes \<open>i\<close>; and the result is an
  element of the values.
\<close>

theorem weighted_median_in_bounds:
  assumes "values \<noteq> []" and "length weights = length values" and "\<forall>w\<in>set weights. 0 \<le> w"
  shows "(let i = argsort values;
              c = cumsum (map (nth weights) i);
              k = searchsorted c (0.5 * last c)
          in list_all (\<lambda>j. j < length weights \<and> j < length values) i
           \<and> c \<noteq> [] \<and> k < length i \<and> i ! k < length values
           \<and> weighted_median values weights = Inr (values ! (i ! k)))
       \<and> (\<exists>v. v \<in> set values \<and> weighted_median values weights = Inr v)"
proof -
  let ?i = "argsort values"
  let ?c = "cumsum (map (nth weights) ?i)"
  have nonneg: "list_all (\<lambda>w. 0 \<le> w) weights" by (rule nonneg_list_all [OF assms(3)])
  have srt: "is_argsort values ?i" by (rule is_argsort_argsort)
  have li: "length ?i = length values" by (rule is_argsort_length [OF srt])
  have i_ne: "?i \<noteq> []" using assms(1) li by (metis length_0_conv)
  then have c_ne: "?c \<noteq> []" by (simp add: cumsum_eq_Nil)
  have "map (nth weights) ?i \<noteq> []" using i_ne by simp
  then have last_c: "last ?c = sum_list weights"
    using last_cumsum [of "map (nth weights) ?i"] is_argsort_sum_list [OF srt assms(2)] by simp
  let ?k = "searchsorted ?c (sum_list weights / 2)"
  note pos = weighted_median_at_position [OF srt assms(2) assms(1) nonneg]
  have ik: "?i ! ?k < length values" by (rule is_argsort_nth [OF srt pos(1)])
  have idx: "list_all (\<lambda>j. j < length weights \<and> j < length values) ?i"
    using is_argsort_set [OF srt] assms(2) by (simp add: list_all_iff)
  have res: "weighted_median values weights = Inr (values ! (?i ! ?k))"
    using pos(2) by (simp add: weighted_median_def)
  have "values ! (?i ! ?k) \<in> set values" using ik by simp
  with res have "\<exists>v. v \<in> set values \<and> weighted_median values weights = Inr v" by blast
  moreover have "0.5 * last ?c = sum_list weights / 2" by (simp add: last_c)
  ultimately show ?thesis
    using idx c_ne pos(1) ik res li unfolding Let_def by simp
qed

theorem weighted_median_in_bounds_witness:
  "weighted_median [3, 1, 2] [0, 0, 0] = Inr ([3, 1, 2] ! (argsort [3, 1, 2] ! 0))
   \<and> weighted_median [3, 1, 2] [0, 0, 0] = Inr 1"
  using weighted_median_in_bounds [of "[3, 1, 2]" "[0, 0, 0]"]
  by (simp add: argsort_def cumsum_def searchsorted_def searchsorted_loop.simps upt_rec)







section \<open>The weighted median of the similarities\<close>

lemma map2_mean:
  "map2 (\<lambda>f1 f2. (f1 + f2) / 2) (map g (map fst sims)) (map h (map fst sims))
   = map (\<lambda>(k, s). (g k + h k) / 2) sims"
  by (induction sims) auto

text \<open>
  Claim C4. \<open>compute_weighted_median_similarity\<close> and
  \<open>compute_weighted_median_ordered_similarity\<close> return \<open>weighted_median\<close> of two aligned
  arrays over the keys of the (ordered) similarity mapping, in the key order of the mapping:
  the similarity of each key, and as its weight the arithmetic mean of the frequencies the
  two embeddings give for that key.
\<close>

theorem compute_weighted_median_similarity_mean_frequency:
  "compute_weighted_median_similarity cmp =
     weighted_median (map snd (neighborhoods_similarities cmp))
       (map (\<lambda>(k, s). (get_frequency (fst (embeddings cmp)) k
                        + get_frequency (snd (embeddings cmp)) k) / 2)
          (neighborhoods_similarities cmp))
   \<and> compute_weighted_median_ordered_similarity cmp =
     weighted_median (map snd (neighborhoods_ordered_similarities cmp))
       (map (\<lambda>(k, s). (get_frequency (fst (embeddings cmp)) k
                        + get_frequency (snd (embeddings cmp)) k) / 2)
          (neighborhoods_ordered_similarities cmp))"
  by (simp add: compute_weighted_median_similarity_def
      compute_weighted_median_ordered_similarity_def neighborhoods_similarities_values_def
      neighborhoods_ordered_similarities_values_def map2_mean split: prod.split
      del: map_map)

lemma compute_weighted_median_similarity_eq:
  "compute_weighted_median_similarity cmp =
     weighted_median (neighborhoods_similarities_values cmp)
       (map (\<lambda>(k, s). (get_frequency (fst (embeddings cmp)) k
                        + get_frequency (snd (embeddings cmp)) k) / 2)
          (neighborhoods_similarities cmp))"
  by (simp add: compute_weighted_median_similarity_def map2_mean split: prod.split
      del: map_map)

text \<open>
  Claim C5, as stated: for every comparison whose two embeddings have no frequencies,
  \<open>compute_weighted_median_similarity\<close> does not fail. It fails for the comparison with
  no key: the cumulative sums are empty and \<^verbatim>\<open>c[-1]\<close> raises.
\<close>

theorem compute_weighted_median_similarity_empty_counterexample:
  "compute_weighted_median_similarity
     \<lparr>embeddings = (\<lparr>frequencies = None\<rparr>, \<lparr>frequencies = None\<rparr>),
      neighborhoods_similarities = [], neighborhoods_ordered_similarities = []\<rparr>
   = Inl IndexError"
  by (simp add: compute_weighted_median_similarity_def neighborhoods_similarities_values_def
      weighted_median_eval)

text \<open>
  Claim C5, amended: for every comparison with at least one key whose two embeddings have
  no frequencies, \<open>compute_weighted_median_similarity\<close> does not fail: every missing
  frequency is the weight 0, and the result is the smallest similarity.
\<close>

theorem compute_weighted_median_similarity_no_frequencies:
  assumes "\<not> is_frequency_set (fst (embeddings cmp))"
    and "\<not> is_frequency_set (snd (embeddings cmp))"
    and "neighborhoods_similarities cmp \<noteq> []"
  shows "compute_weighted_median_similarity cmp
         = Inr (Min (set (neighborhoods_similarities_values cmp)))"
proof -
  let ?weights = "map (\<lambda>(k, s). (get_frequency (fst (embeddings cmp)) k
                        + get_frequency (snd (embeddings cmp)) k) / 2)
          (neighborhoods_similarities cmp)"
  have zero: "get_frequency (fst (embeddings cmp)) k = 0"
    "get_frequency (snd (embeddings cmp)) k = 0" for k
    using assms(1,2) by (simp_all add: get_frequency_def is_frequency_set_def)
  have "list_all (\<lambda>w. w = 0) ?weights"
    by (simp add: list_all_iff zero split: prod.split)
  moreover have "length ?weights = length (neighborhoods_similarities_values cmp)"
    by (simp add: neighborhoods_similarities_values_def)
  moreover have "neighborhoods_similarities_values cmp \<noteq> []"
    using assms(3) by (simp add: neighborhoods_similarities_values_def)
  ultimately show ?thesis
    unfolding compute_weighted_median_similarity_eq
    by (intro weighted_median_all_zero)
qed

theorem compute_weighted_median_similarity_no_frequencies_witness:
  "compute_weighted_median_similarity
     \<lparr>embeddings = (\<lparr>frequencies = None\<rparr>, \<lparr>frequencies = None\<rparr>),
      neighborhoods_similarities = [(''a'', 0.5), (''b'', 0.25), (''c'', 1)],
      neighborhoods_ordered_similarities = []\<rparr>
   = Inr 0.25"
  using compute_weighted_median_similarity_no_frequencies
    [of "\<lparr>embeddings = (\<lparr>frequencies = None\<rparr>, \<lparr>frequencies = None\<rparr>),
      neighborhoods_similarities = [(''a'', 0.5), (''b'', 0.25), (''c'', 1)],
      neighborhoods_ordered_similarities = []\<rparr>"]
  by (simp add: is_frequency_set_def neighborhoods_similarities_values_def)

section \<open>The advanced parameters\<close>

lemma AdvancedParameters_setattrs_map_of:
  "AdvancedParameters_setattrs self kwargs = self ++ map_of (rev kwargs)"
proof (induction kwargs arbitrary: self)
  case Nil
  show ?case by simp
next
  case (Cons kv kwargs)
  obtain key v where kv: "kv = (key, v)" by (cases kv)
  have "AdvancedParameters_setattrs self (kv # kwargs) = setattr self key v ++ map_of (rev kwargs)"
    by (simp only: kv AdvancedParameters_setattrs.simps Cons.IH)
  also have "setattr self key v = self(key \<mapsto> v)"
    by (rule ext) (simp add: setattr_def)
  also have "self(key \<mapsto> v) ++ map_of (rev kwargs) = self ++ map_of (rev (kv # kwargs))"
    by (simp add: kv)
  finally show ?case .
qed

text \<open>
  Claim C8, as stated: the constructor of the configuration rejects a non-positive
  \<open>n_neighbors\<close> and a \<open>max_emb_size\<close> below 100. Neither constructor checks anything:
  the class of \<^verbatim>\<open>helpers.py\<close> accepts 0 and 5, the named tuple of \<^verbatim>\<open>app.py\<close> accepts
  -3 and 99.
\<close>

theorem AdvancedParameters_unchecked_counterexample:
  "AdvancedParameters_init [(''n_neighbors'', PyInt 0), (''max_emb_size'', PyInt 5)]
     = Inr [''n_neighbors'' \<mapsto> PyInt 0, ''max_emb_size'' \<mapsto> PyInt 5]
   \<and> AdvancedParameters (- 3) 99 = Inr \<lparr>n_neighbors = - 3, max_emb_size = 99\<rparr>"
  by (simp add: AdvancedParameters_init_def AdvancedParameters_def setattr_def)

text \<open>
  Claim C8, amended: the constructors of the configuration validate nothing. The class
  constructor stores every keyword argument as given (the last one for a repeated key),
  so \<open>n_neighbors\<close>, \<open>max_emb_size\<close> and \<open>min_frequency\<close> read back as passed; the named
  tuple and \<open>get_advanced_parameters\<close> hold the two values they are given. The bounds 1
  and 100 are only the \<^verbatim>\<open>min_value\<close> of the number inputs that supply the values.
\<close>

theorem AdvancedParameters_stores_arguments:
  "AdvancedParameters_init kwargs = Inr (map_of (rev kwargs))
   \<and> (\<exists>self. AdvancedParameters_init
          [(''n_neighbors'', PyInt n), (''max_emb_size'', PyInt m), (''min_frequency'', PyFloat f)]
          = Inr self
        \<and> getattr self ''n_neighbors'' = Some (PyInt n)
        \<and> getattr self ''max_emb_size'' = Some (PyInt m)
        \<and> getattr self ''min_frequency'' = Some (PyFloat f))
   \<and> AdvancedParameters n m = Inr \<lparr>n_neighbors = n, max_emb_size = m\<rparr>
   \<and> get_advanced_parameters n m = Inr \<lparr>n_neighbors = n, max_emb_size = m\<rparr>"
  by (simp add: AdvancedParameters_init_def AdvancedParameters_setattrs_map_of
      AdvancedParameters_def get_advanced_parameters_def getattr_def)

end
